theory Spec2Isabelle
  imports Main "HOL-Library.Word"
begin

section \<open>The redis-dump-go pipeline (package redisdump), embedded in HOL\<close>

text \<open>
  Go strings are byte sequences, so a Go \<open>string\<close> is a \<open>char list\<close> here (an
  Isabelle \<open>char\<close> is one byte) and \<open>len\<close> is \<open>length\<close>. A Go \<open>int\<close> that
  holds a length or an index is modelled as \<open>int\<close>: no slice of this program can be
  long enough for index arithmetic to wrap. The \<open>int64\<close> of a TTL is a \<open>64 word\<close>.
\<close>

subsection \<open>Decimal text of integers (strconv.Itoa, fmt.Sprint)\<close>

definition digit_char :: "nat \<Rightarrow> char" where
  "digit_char d = ''0123456789'' ! d"

text \<open>The decimal digits of a natural number, most significant first.\<close>

fun digits10 :: "nat \<Rightarrow> string" where
  "digits10 n = (if n < 10 then [digit_char n] else digits10 (n div 10) @ [digit_char (n mod 10)])"

declare digits10.simps [simp del]

text \<open>\<open>strconv.Itoa\<close>, and \<open>fmt.Sprint\<close> on an integer: a minus sign for a negative
  number, then the decimal digits.\<close>

definition Itoa :: "int \<Rightarrow> string" where
  "Itoa i = (if i < 0 then CHR ''-'' # digits10 (nat (- i)) else digits10 (nat i))"

subsection \<open>Command builders\<close>

text \<open>\<open>min\<close> of the source (lines 15-20).\<close>

definition min' :: "int \<Rightarrow> int \<Rightarrow> int" where
  "min' a b = (if a \<le> b then a else b)"

text \<open>
  \<open>ttlToRedisCmd\<close> reads the wall clock (\<open>time.Now().Unix()\<close>); the reading is the
  explicit argument \<open>now\<close>. The sum is an \<open>int64\<close> addition and is printed signed.
\<close>

definition ttlToRedisCmd :: "64 word \<Rightarrow> string \<Rightarrow> 64 word \<Rightarrow> string list" where
  "ttlToRedisCmd now k val = [''EXPIREAT'', k, Itoa (sint (now + val))]"

definition stringToRedisCmd :: "string \<Rightarrow> string \<Rightarrow> string list" where
  "stringToRedisCmd k val = [''SET'', k, val]"

text \<open>
  \<open>hashToRedisCmd\<close> ranges over a Go map, whose iteration order the language leaves
  open and the runtime randomises. The argument \<open>val\<close> is the list of the map's
  entries in the order in which this one \<open>range\<close> loop visits them.
\<close>

definition hashToRedisCmd :: "string \<Rightarrow> (string \<times> string) list \<Rightarrow> string list" where
  "hashToRedisCmd k val = foldl (\<lambda>cmd (f, v). cmd @ [f, v]) [''HSET'', k] val"

definition setToRedisCmd :: "string \<Rightarrow> string list \<Rightarrow> string list" where
  "setToRedisCmd k val = [''SADD'', k] @ val"

definition listToRedisCmd :: "string \<Rightarrow> string list \<Rightarrow> string list" where
  "listToRedisCmd k val = [''RPUSH'', k] @ val"

text \<open>
  The loop of \<open>zsetToRedisCmd\<close>: \<open>i\<close> is the index of the element visited, \<open>key\<close> the
  local variable that remembers the last element seen at an even index.
\<close>

fun zset_loop :: "int \<Rightarrow> string list \<Rightarrow> string \<Rightarrow> string list \<Rightarrow> string list" where
  "zset_loop i [] key cmd = cmd"
| "zset_loop i (v # vs) key cmd =
     (if i mod 2 = 0 then zset_loop (i + 1) vs v cmd
      else zset_loop (i + 1) vs key (cmd @ [v, key]))"

definition zsetToRedisCmd :: "string \<Rightarrow> string list \<Rightarrow> string list" where
  "zsetToRedisCmd k val = zset_loop 0 val [] [''ZADD'', k]"

subsection \<open>Serializers\<close>

definition CRLF :: string where
  "CRLF = [CHR 0x0D, CHR 0x0A]"

text \<open>\<open>RESPSerializer\<close>: the string \<open>s\<close> grows by two appends for each argument.\<close>

definition RESPSerializer :: "string list \<Rightarrow> string" where
  "RESPSerializer cmd =
     foldl (\<lambda>s arg. (s @ ''$'' @ Itoa (int (length arg)) @ CRLF) @ arg @ CRLF)
       ('''' @ ''*'' @ Itoa (int (length cmd)) @ CRLF) cmd"

text \<open>\<open>strings.Join\<close>.\<close>

fun Join :: "string list \<Rightarrow> string \<Rightarrow> string" where
  "Join [] sep = []"
| "Join [x] sep = x"
| "Join (x # y # xs) sep = x @ sep @ Join (y # xs) sep"

definition RedisCmdSerializer :: "string list \<Rightarrow> string" where
  "RedisCmdSerializer cmd = Join cmd '' ''"

subsection \<open>Reading a request back\<close>

text \<open>
  The reader of the length-prefixed array encoding that the round-trip property speaks
  of: \<open>*<n>\r\n\<close>, then \<open>n\<close> times \<open>$<len>\r\n<len bytes>\r\n\<close>, and nothing after. It is
  not code of the repository (the store's server reads requests this way).
\<close>

definition is_digit :: "char \<Rightarrow> bool" where
  "is_digit c = (48 \<le> (of_char c :: nat) \<and> (of_char c :: nat) \<le> 57)"

definition digit_val :: "char \<Rightarrow> nat" where
  "digit_val c = of_char c - 48"

definition dec_val :: "string \<Rightarrow> nat" where
  "dec_val ds = foldl (\<lambda>n c. 10 * n + digit_val c) 0 ds"

definition read_len :: "string \<Rightarrow> (nat \<times> string) option" where
  "read_len s =
     (let ds = takeWhile is_digit s; rest = dropWhile is_digit s in
      if ds = [] then None
      else if take 2 rest = CRLF then Some (dec_val ds, drop 2 rest)
      else None)"

fun read_bulks :: "nat \<Rightarrow> string \<Rightarrow> (string list \<times> string) option" where
  "read_bulks 0 s = Some ([], s)"
| "read_bulks (Suc n) s =
     (if take 1 s = ''$'' then
        (case read_len (drop 1 s) of
           None \<Rightarrow> None
         | Some (len, body) \<Rightarrow>
             if length body < len + 2 then None
             else if take 2 (drop len body) = CRLF then
               (case read_bulks n (drop (len + 2) body) of
                  None \<Rightarrow> None
                | Some (args, rest) \<Rightarrow> Some (take len body # args, rest))
             else None)
      else None)"

definition read_request :: "string \<Rightarrow> string list option" where
  "read_request s =
     (if take 1 s = ''*'' then
        (case read_len (drop 1 s) of
           None \<Rightarrow> None
         | Some (n, body) \<Rightarrow>
             (case read_bulks n body of
                None \<Rightarrow> None
              | Some (args, rest) \<Rightarrow> if rest = [] then Some args else None))
      else None)"

text \<open>One argument of a request, as the encoding words it: \<open>$<byte-length>\r\n<bytes>\r\n\<close>.\<close>

definition bulk :: "string \<Rightarrow> string" where
  "bulk arg = ''$'' @ Itoa (int (length arg)) @ CRLF @ arg @ CRLF"

subsection \<open>The store, the logger and errors\<close>

text \<open>
  An \<open>error\<close> value of the program is one of: a failure that the store client
  (\<open>radix\<close>) reports for a query, an error built by \<open>fmt.Errorf\<close> with its message, or
  the \<open>*strconv.NumError\<close> of \<open>strconv.ParseUint\<close> (function name, input, cause).
\<close>

datatype num_err = ErrSyntax | ErrRange

datatype error = StoreError string | Errorf string | NumError string string num_err

text \<open>
  The store is outside the program. What it answers is a parameter of the model: one
  answer per kind of query and key (every key of a database is listed once by
  \<open>KEYS *\<close> and so is queried once per dump). \<open>Inl\<close> is a failed query.
  \<open>hgetall_reply\<close> lists the entries of the decoded Go map in the order in which
  \<open>hashToRedisCmd\<close> will range over it; \<open>clock\<close> is what \<open>time.Now().Unix()\<close> reads
  when the \<open>EXPIREAT\<close> of the key is built.
\<close>

record store =
  pool_reply :: "int \<Rightarrow> error option"
  select_reply :: "string \<Rightarrow> error option"
  keys_reply :: "error + string list"
  type_reply :: "string \<Rightarrow> error + string"
  get_reply :: "string \<Rightarrow> error + string"
  lrange_reply :: "string \<Rightarrow> error + string list"
  smembers_reply :: "string \<Rightarrow> error + string list"
  hgetall_reply :: "string \<Rightarrow> error + (string \<times> string) list"
  zrange_reply :: "string \<Rightarrow> error + string list"
  ttl_reply :: "string \<Rightarrow> error + 64 word"
  clock :: "string \<Rightarrow> 64 word"

text \<open>A call of the logger (the sink): \<open>logger.Print(s)\<close> or \<open>logger.Printf(s)\<close>.\<close>

datatype log_call = Print string | Printf string

subsection \<open>dumpKeys and dumpKeysWorker\<close>

definition withTTL :: bool where
  "withTTL = True"

text \<open>
  The \<open>switch keyType\<close> of \<open>dumpKeys\<close> (lines 92-132): the value of the variable
  \<open>redisCmd\<close> after the switch, or the error that \<open>dumpKeys\<close> returns from inside it.
  \<open>redisCmd\<close> is declared before the loop over the keys, so the \<open>"none"\<close> case, which
  assigns nothing, leaves it as the previous iteration left it.
\<close>

definition fetchCmd :: "store \<Rightarrow> string \<Rightarrow> string \<Rightarrow> string list \<Rightarrow> error + string list" where
  "fetchCmd client key keyType redisCmd =
     (if keyType = ''string'' then
        (case get_reply client key of Inl err \<Rightarrow> Inl err | Inr val \<Rightarrow> Inr (stringToRedisCmd key val))
      else if keyType = ''list'' then
        (case lrange_reply client key of Inl err \<Rightarrow> Inl err | Inr val \<Rightarrow> Inr (listToRedisCmd key val))
      else if keyType = ''set'' then
        (case smembers_reply client key of Inl err \<Rightarrow> Inl err | Inr val \<Rightarrow> Inr (setToRedisCmd key val))
      else if keyType = ''hash'' then
        (case hgetall_reply client key of Inl err \<Rightarrow> Inl err | Inr val \<Rightarrow> Inr (hashToRedisCmd key val))
      else if keyType = ''zset'' then
        (case zrange_reply client key of Inl err \<Rightarrow> Inl err | Inr val \<Rightarrow> Inr (zsetToRedisCmd key val))
      else if keyType = ''none'' then Inr redisCmd
      else Inl (Errorf (''Key '' @ key @ '' is of unreconized type '' @ keyType)))"

text \<open>
  The loop of \<open>dumpKeys\<close> over the keys of a batch. \<open>redisCmd\<close> is the loop-carried
  variable, \<open>out\<close> the logger calls made so far. The result is the returned error
  (\<open>None\<close> is \<open>nil\<close>) and the logger calls made.
\<close>

fun dumpKeys_loop ::
  "store \<Rightarrow> (string list \<Rightarrow> string) \<Rightarrow> string list \<Rightarrow> string list \<Rightarrow> log_call list
     \<Rightarrow> error option \<times> log_call list" where
  "dumpKeys_loop client serializer [] redisCmd out = (None, out)"
| "dumpKeys_loop client serializer (key # keys) redisCmd out =
     (case type_reply client key of
        Inl err \<Rightarrow> (Some err, out)
      | Inr keyType \<Rightarrow>
          (case fetchCmd client key keyType redisCmd of
             Inl err \<Rightarrow> (Some err, out)
           | Inr cmd1 \<Rightarrow>
               (let out1 = out @ [Print (serializer cmd1)] in
                if withTTL then
                  (case ttl_reply client key of
                     Inl err \<Rightarrow> (Some err, out1)
                   | Inr ttl \<Rightarrow>
                       if 0 < sint ttl then
                         (let cmd2 = ttlToRedisCmd (clock client key) key ttl in
                          dumpKeys_loop client serializer keys cmd2 (out1 @ [Printf (serializer cmd2)]))
                       else dumpKeys_loop client serializer keys cmd1 out1)
                else dumpKeys_loop client serializer keys cmd1 out1)))"

definition dumpKeys ::
  "store \<Rightarrow> string list \<Rightarrow> (string list \<Rightarrow> string) \<Rightarrow> error option \<times> log_call list" where
  "dumpKeys client keys serializer = dumpKeys_loop client serializer keys [] []"


subsection \<open>DumpDB\<close>

record ProgressNotification =
  Done :: int
  Total :: int

definition batchSize :: int where
  "batchSize = 100"

text \<open>\<open>keys[i:batchEnd]\<close> for indices within the bounds of the slice.\<close>

definition slice :: "'a list \<Rightarrow> int \<Rightarrow> int \<Rightarrow> 'a list" where
  "slice xs lo hi = take (nat (hi - lo)) (drop (nat lo) xs)"

text \<open>
  The dispatch loop of \<open>DumpDB\<close> (lines 260-267). \<open>nErrors\<close> is written by the error
  collector, which runs concurrently, and read by the loop test: \<open>nErrorsAt n\<close> is the
  value that the test reads the \<open>(n+1)\<close>-th time it reads it. \<open>hasProgress\<close> is
  \<open>progress != nil\<close>. Each round of the loop sends one batch and, with a progress
  channel, one notification; the result lists the rounds in order.
\<close>

function dispatch ::
  "(nat \<Rightarrow> int) \<Rightarrow> bool \<Rightarrow> string list \<Rightarrow> nat \<Rightarrow> int
     \<Rightarrow> (string list \<times> ProgressNotification option) list" where
  "dispatch nErrorsAt hasProgress keys n i =
     (if i < int (length keys) \<and> nErrorsAt n = 0 then
        (let batchEnd = min' (i + batchSize) (int (length keys)) in
         (slice keys i batchEnd,
          if hasProgress then Some \<lparr>Done = batchEnd, Total = int (length keys)\<rparr> else None)
         # dispatch nErrorsAt hasProgress keys (Suc n) (i + batchSize))
      else [])"
  by pat_completeness auto
termination
  by (relation "measure (\<lambda>(e, p, keys, n, i). nat (int (length keys) - i))")
    (auto simp: batchSize_def)

declare dispatch.simps [simp del]



subsection \<open>Parsing the keyspace summary\<close>

text \<open>A call either returns or stops with a run-time panic.\<close>

datatype 'a outcome = Returned 'a | Panic

text \<open>
  \<open>bufio.Scanner\<close> with the default split function \<open>ScanLines\<close> and the default
  buffer: a token ends before the next \<open>\n\<close> or at the end of the input, a final empty
  token is not returned, one trailing \<open>\r\<close> is dropped from each token. A token that
  does not fit the buffer (no \<open>\n\<close> among the next \<open>MaxScanTokenSize\<close> bytes) ends the
  scan: \<open>Scan\<close> returns false, as at the end of the input (\<open>parseKeyspaceInfo\<close> does
  not look at \<open>scanner.Err()\<close>).
\<close>

definition MaxScanTokenSize :: nat where
  "MaxScanTokenSize = 64 * 1024"

definition dropCR :: "string \<Rightarrow> string" where
  "dropCR data = (if data \<noteq> [] \<and> last data = CHR 0x0D then butlast data else data)"

function scan_lines :: "string \<Rightarrow> string list" where
  "scan_lines data =
     (if data = [] then []
      else
        (let tok = takeWhile (\<lambda>c. c \<noteq> CHR 0x0A) data;
             rest = dropWhile (\<lambda>c. c \<noteq> CHR 0x0A) data
         in if MaxScanTokenSize \<le> length tok then []
            else dropCR tok # scan_lines (drop 1 rest)))"
  by pat_completeness auto
termination
proof (relation "measure length")
  show "wf (measure length)" by simp
next
  fix data :: string and tok rest
  assume "data \<noteq> []" and "rest = dropWhile (\<lambda>c. c \<noteq> CHR 0x0A) data"
  then show "(drop 1 rest, data) \<in> measure length"
    using length_dropWhile_le [of "\<lambda>c. c \<noteq> CHR 0x0A" data]
    by (cases data) (auto split: if_splits)
qed

declare scan_lines.simps [simp del]

text \<open>
  \<open>strings.TrimSpace\<close> removes from both ends every code point for which
  \<open>unicode.IsSpace\<close> holds. \<open>space_runes\<close> lists the UTF-8 encodings of these code
  points: U+0009 to U+000D, U+0020, U+0085, U+00A0, U+1680, U+2000 to U+200A, U+2028,
  U+2029, U+202F, U+205F, U+3000. Bytes that do not decode to one of them stay.
\<close>

definition space_runes :: "string list" where
  "space_runes =
     [[CHR 0x09], [CHR 0x0A], [CHR 0x0B], [CHR 0x0C], [CHR 0x0D], [CHR 0x20],
      [CHR 0xC2, CHR 0x85], [CHR 0xC2, CHR 0xA0], [CHR 0xE1, CHR 0x9A, CHR 0x80],
      [CHR 0xE2, CHR 0x80, CHR 0x80], [CHR 0xE2, CHR 0x80, CHR 0x81],
      [CHR 0xE2, CHR 0x80, CHR 0x82], [CHR 0xE2, CHR 0x80, CHR 0x83],
      [CHR 0xE2, CHR 0x80, CHR 0x84], [CHR 0xE2, CHR 0x80, CHR 0x85],
      [CHR 0xE2, CHR 0x80, CHR 0x86], [CHR 0xE2, CHR 0x80, CHR 0x87],
      [CHR 0xE2, CHR 0x80, CHR 0x88], [CHR 0xE2, CHR 0x80, CHR 0x89],
      [CHR 0xE2, CHR 0x80, CHR 0x8A], [CHR 0xE2, CHR 0x80, CHR 0xA8],
      [CHR 0xE2, CHR 0x80, CHR 0xA9], [CHR 0xE2, CHR 0x80, CHR 0xAF],
      [CHR 0xE2, CHR 0x81, CHR 0x9F], [CHR 0xE3, CHR 0x80, CHR 0x80]]"

text \<open>\<open>strings.HasPrefix\<close> and \<open>strings.HasSuffix\<close>.\<close>

definition HasPrefix :: "string \<Rightarrow> string \<Rightarrow> bool" where
  "HasPrefix s pre = (length pre \<le> length s \<and> take (length pre) s = pre)"

definition HasSuffix :: "string \<Rightarrow> string \<Rightarrow> bool" where
  "HasSuffix s suf = (length suf \<le> length s \<and> drop (length s - length suf) s = suf)"

text \<open>The width of the space at the start (at the end) of \<open>s\<close>, 0 when there is none.\<close>

definition space_width_left :: "string \<Rightarrow> nat" where
  "space_width_left s = (case find (HasPrefix s) space_runes of None \<Rightarrow> 0 | Some r \<Rightarrow> length r)"

definition space_width_right :: "string \<Rightarrow> nat" where
  "space_width_right s = (case find (HasSuffix s) space_runes of None \<Rightarrow> 0 | Some r \<Rightarrow> length r)"

fun trim_fuel_left :: "nat \<Rightarrow> string \<Rightarrow> string" where
  "trim_fuel_left 0 s = s"
| "trim_fuel_left (Suc n) s =
     (if space_width_left s = 0 then s else trim_fuel_left n (drop (space_width_left s) s))"

fun trim_fuel_right :: "nat \<Rightarrow> string \<Rightarrow> string" where
  "trim_fuel_right 0 s = s"
| "trim_fuel_right (Suc n) s =
     (if space_width_right s = 0 then s
      else trim_fuel_right n (take (length s - space_width_right s) s))"

text \<open>Each round removes at least one byte, so \<open>length s\<close> rounds reach the end.\<close>

definition TrimSpace :: "string \<Rightarrow> string" where
  "TrimSpace s = (let l = trim_fuel_left (length s) s in trim_fuel_right (length l) l)"

text \<open>
  \<open>strings.IndexAny(s, ":")\<close>: the index of the first byte \<open>:\<close> of \<open>s\<close>, or \<open>-1\<close>.
\<close>

definition IndexColon :: "string \<Rightarrow> int" where
  "IndexColon s =
     (if CHR '':'' \<in> set s then int (length (takeWhile (\<lambda>c. c \<noteq> CHR '':'') s)) else - 1)"

text \<open>
  The slice expression \<open>s[lo:hi]\<close> of a string: it panics unless
  \<open>0 \<le> lo \<le> hi \<le> len(s)\<close>.
\<close>

definition slice_str :: "string \<Rightarrow> int \<Rightarrow> int \<Rightarrow> string outcome" where
  "slice_str s lo hi =
     (if 0 \<le> lo \<and> lo \<le> hi \<and> hi \<le> int (length s)
      then Returned (take (nat (hi - lo)) (drop (nat lo) s)) else Panic)"

text \<open>
  \<open>strconv.ParseUint(s, 10, 8)\<close>: the empty string and a byte that is not a decimal
  digit are syntax errors; a value above 255 is a range error, reported at the digit
  that exceeds it (the bytes after that digit are not looked at).
\<close>

fun parse_digits :: "string \<Rightarrow> nat \<Rightarrow> string \<Rightarrow> error + nat" where
  "parse_digits s0 n [] = Inr n"
| "parse_digits s0 n (c # cs) =
     (if \<not> is_digit c then Inl (NumError ''ParseUint'' s0 ErrSyntax)
      else if 255 < n * 10 + digit_val c then Inl (NumError ''ParseUint'' s0 ErrRange)
      else parse_digits s0 (n * 10 + digit_val c) cs)"

definition ParseUint8 :: "string \<Rightarrow> error + nat" where
  "ParseUint8 s = (if s = [] then Inl (NumError ''ParseUint'' s ErrSyntax) else parse_digits s 0 s)"

text \<open>The loop of \<open>parseKeyspaceInfo\<close> over the tokens of the scanner.\<close>

fun parse_loop :: "string list \<Rightarrow> 8 word list \<Rightarrow> (error + 8 word list) outcome" where
  "parse_loop [] dbs = Returned (Inr dbs)"
| "parse_loop (text # texts) dbs =
     (let line = TrimSpace text in
      if \<not> HasPrefix line ''db'' then parse_loop texts dbs
      else
        (case slice_str line 2 (IndexColon line) of
           Panic \<Rightarrow> Panic
         | Returned dbIndexString \<Rightarrow>
             (case ParseUint8 dbIndexString of
                Inl err \<Rightarrow> Returned (Inl err)
              | Inr dbIndex \<Rightarrow>
                  if 16 < dbIndex then Returned (Inl (Errorf ''Error parsing INFO keyspace''))
                  else parse_loop texts (dbs @ [of_nat dbIndex]))))"

definition parseKeyspaceInfo :: "string \<Rightarrow> (error + 8 word list) outcome" where
  "parseKeyspaceInfo keyspaceInfo = parse_loop (scan_lines keyspaceInfo) []"

subsection \<open>Notifications of a run, and a store to run the pipeline on\<close>

text \<open>The notifications sent by the rounds of the dispatch loop, in order.\<close>

definition notifications ::
  "(string list \<times> ProgressNotification option) list \<Rightarrow> ProgressNotification list" where
  "notifications rs = List.map_filter snd rs"


text \<open>
  A store with four keys: \<open>a\<close> holds the string \<open>v\<close> and never expires; \<open>b\<close> was
  listed and is gone when it is queried (type \<open>none\<close>, TTL \<open>-2\<close>); \<open>s\<close> is a stream;
  \<open>c\<close> holds the string \<open>w\<close> and expires in 120 seconds. The clock reads 1700000000.
\<close>

definition demo_store :: store where
  "demo_store =
     \<lparr>pool_reply = (\<lambda>n. None),
      select_reply = (\<lambda>d. None),
      keys_reply = Inr [''a'', ''b'', ''s'', ''c''],
      type_reply = (\<lambda>k. if k = ''a'' \<or> k = ''c'' then Inr ''string''
                          else if k = ''s'' then Inr ''stream'' else Inr ''none''),
      get_reply = (\<lambda>k. if k = ''a'' then Inr ''v'' else Inr ''w''),
      lrange_reply = (\<lambda>k. Inr []),
      smembers_reply = (\<lambda>k. Inr []),
      hgetall_reply = (\<lambda>k. Inr []),
      zrange_reply = (\<lambda>k. Inr []),
      ttl_reply = (\<lambda>k. if k = ''a'' then Inr (- 1) else if k = ''c'' then Inr 120 else Inr (- 2)),
      clock = (\<lambda>k. 1700000000)\<rparr>"

text \<open>250 keys, named \<open>0\<close> to \<open>249\<close>.\<close>

definition keys250 :: "string list" where
  "keys250 = map (\<lambda>n. Itoa (int n)) [0..<250]"

text \<open>The error count read as 0 at the first test of the loop and as 1 from then on.\<close>

definition error_after_first :: "nat \<Rightarrow> int" where
  "error_after_first n = (if n = 0 then 0 else 1)"

subsection \<open>The lines of a text and their database indices\<close>

text \<open>
  The words in which the properties of \<open>parseKeyspaceInfo\<close> are stated. The pieces of a
  text between its \<open>\n\<close> bytes (a last piece that is empty does not count):
\<close>

function raw_lines :: "string \<Rightarrow> string list" where
  "raw_lines data =
     (if data = [] then []
      else takeWhile (\<lambda>c. c \<noteq> CHR 0x0A) data
           # raw_lines (drop 1 (dropWhile (\<lambda>c. c \<noteq> CHR 0x0A) data)))"
  by pat_completeness auto
termination
proof (relation "measure length")
  show "wf (measure length)" by simp
next
  fix data :: string
  assume "data \<noteq> []"
  then show "(drop 1 (dropWhile (\<lambda>c. c \<noteq> CHR 0x0A) data), data) \<in> measure length"
    using length_dropWhile_le [of "\<lambda>c. c \<noteq> CHR 0x0A" data]
    by (cases data) (auto split: if_splits)
qed

declare raw_lines.simps [simp del]

text \<open>The lines of a text: its pieces, each without the \<open>\r\<close> of a \<open>\r\n\<close> line end.\<close>

definition lines_of :: "string \<Rightarrow> string list" where
  "lines_of data = map dropCR (raw_lines data)"

text \<open>In a line \<open>db<token>:...\<close>, the index token: what stands between \<open>db\<close> and the first \<open>:\<close>.\<close>

definition db_token :: "string \<Rightarrow> string" where
  "db_token line = takeWhile (\<lambda>c. c \<noteq> CHR '':'') (drop 2 line)"

text \<open>A token is the decimal text of an unsigned 8-bit integer: digits only, at least
  one, of a value up to 255.\<close>

definition uint8_text :: "string \<Rightarrow> bool" where
  "uint8_text tok = (tok \<noteq> [] \<and> list_all is_digit tok \<and> dec_val tok \<le> 255)"

text \<open>A line that, once trimmed, either does not begin with \<open>db\<close> or is \<open>db<N>:...\<close> with
  \<open>N\<close> such a number and at most 16.\<close>

definition db_line_ok :: "string \<Rightarrow> bool" where
  "db_line_ok text =
     (let line = TrimSpace text in
      if HasPrefix line ''db''
      then CHR '':'' \<in> set line \<and> uint8_text (db_token line) \<and> dec_val (db_token line) \<le> 16
      else True)"

text \<open>The indices \<open>N\<close> of the lines that begin with \<open>db\<close>, in the order of the lines.\<close>

definition db_indices :: "string list \<Rightarrow> 8 word list" where
  "db_indices texts =
     map (\<lambda>t. of_nat (dec_val (db_token (TrimSpace t))))
       (filter (\<lambda>t. HasPrefix (TrimSpace t) ''db'') texts)"

text \<open>The value of a digit string read after the value \<open>n\<close>.\<close>

fun digits_from :: "nat \<Rightarrow> string \<Rightarrow> nat" where
  "digits_from n [] = n"
| "digits_from n (c # cs) = digits_from (n * 10 + digit_val c) cs"

text \<open>A reply of the store to \<open>INFO keyspace\<close>, with its \<open>\r\n\<close> line ends.\<close>

definition info_reply :: string where
  "info_reply = ''# Keyspace'' @ CRLF @ ''db0:keys=3,expires=0,avg_ttl=0'' @ CRLF
                  @ ''db16:keys=1,expires=0,avg_ttl=0'' @ CRLF"

section \<open>Properties\<close>

lemma min'_eq: "min' a b = min a b"
  by (simp add: min'_def min_def)

subsection \<open>The sorted-set builder\<close>

lemma zset_loop_pairs:
  "i mod 2 = 0 \<Longrightarrow>
   zset_loop i (concat (map (\<lambda>(m, s). [m, s]) ps)) key cmd = cmd @ concat (map (\<lambda>(m, s). [s, m]) ps)"
proof (induction ps arbitrary: i key cmd)
  case Nil
  then show ?case by simp
next
  case (Cons p ps)
  obtain m s where p: "p = (m, s)" by (cases p)
  have odd: "(i + 1) mod 2 \<noteq> 0" and even: "(i + 1 + 1) mod 2 = 0"
    using Cons.prems by presburger+
  show ?case
    using Cons.IH [OF even] odd Cons.prems by (simp add: p)
qed

text \<open>
  Claim C4. For every key and every flat alternating sequence
  \<open>[m1, s1, m2, s2, ...]\<close> (members at the even positions, each followed by its score),
  \<open>zsetToRedisCmd\<close> returns \<open>ZADD key s1 m1 s2 m2 ...\<close>; for \<open>["a","1","b","2"]\<close> it
  returns \<open>ZADD key 1 a 2 b\<close>.
\<close>

theorem zsetToRedisCmd_pairs:
  "zsetToRedisCmd k (concat (map (\<lambda>(m, s). [m, s]) ps))
     = ''ZADD'' # k # concat (map (\<lambda>(m, s). [s, m]) ps)
   \<and> zsetToRedisCmd k [''a'', ''1'', ''b'', ''2''] = [''ZADD'', k, ''1'', ''a'', ''2'', ''b'']"
proof
  show "zsetToRedisCmd k (concat (map (\<lambda>(m, s). [m, s]) ps))
          = ''ZADD'' # k # concat (map (\<lambda>(m, s). [s, m]) ps)"
    unfolding zsetToRedisCmd_def by (subst zset_loop_pairs) simp_all
  show "zsetToRedisCmd k [''a'', ''1'', ''b'', ''2''] = [''ZADD'', k, ''1'', ''a'', ''2'', ''b'']"
    by (simp add: zsetToRedisCmd_def)
qed

subsection \<open>The wire-protocol serializer\<close>

lemma digit_cases:
  "d < 10 \<Longrightarrow> d = 0 \<or> d = 1 \<or> d = 2 \<or> d = 3 \<or> d = 4 \<or> d = 5 \<or> d = 6 \<or> d = 7 \<or> d = 8 \<or> d = (9::nat)"
  by arith

lemma digit_char_props:
  assumes "d < 10"
  shows "is_digit (digit_char d)" and "digit_val (digit_char d) = d"
  using digit_cases [OF assms]
  by (elim disjE; simp add: is_digit_def digit_val_def digit_char_def)+

lemma digits10_digits: "list_all is_digit (digits10 n)"
proof (induction n rule: digits10.induct)
  case (1 n)
  show ?case
  proof (cases "n < 10")
    case True
    then show ?thesis by (subst digits10.simps) (simp add: digit_char_props)
  next
    case False
    then show ?thesis using 1 by (subst digits10.simps) (simp add: digit_char_props)
  qed
qed

lemma digits10_nonempty: "digits10 n \<noteq> []"
  by (subst digits10.simps) simp

lemma dec_val_snoc: "dec_val (ds @ [c]) = 10 * dec_val ds + digit_val c"
  by (simp add: dec_val_def)

lemma dec_val_digits10: "dec_val (digits10 n) = n"
proof (induction n rule: digits10.induct)
  case (1 n)
  show ?case
  proof (cases "n < 10")
    case True
    then show ?thesis by (subst digits10.simps) (simp add: dec_val_def digit_char_props)
  next
    case False
    then show ?thesis using 1
      by (subst digits10.simps) (simp add: dec_val_snoc digit_char_props)
  qed
qed

lemma not_digit_CR: "\<not> is_digit (CHR 0x0D)"
  by (simp add: is_digit_def)

lemma CRLF_simps:
  "take 2 (CRLF @ r) = CRLF" "drop 2 (CRLF @ r) = r" "length CRLF = 2"
  "takeWhile is_digit (CRLF @ r) = []" "dropWhile is_digit (CRLF @ r) = CRLF @ r"
  by (simp_all add: CRLF_def is_digit_def)

lemma read_len_digits10: "read_len (digits10 n @ CRLF @ r) = Some (n, r)"
proof -
  have all: "\<forall>c\<in>set (digits10 n). is_digit c"
    using digits10_digits [of n] by (simp add: list_all_iff)
  have t: "takeWhile is_digit (digits10 n @ CRLF @ r) = digits10 n"
    using all by (simp add: takeWhile_append2 CRLF_simps)
  have d: "dropWhile is_digit (digits10 n @ CRLF @ r) = CRLF @ r"
    using all by (simp add: dropWhile_append2 CRLF_simps)
  show ?thesis
    by (simp add: read_len_def t d digits10_nonempty dec_val_digits10 CRLF_simps)
qed

lemma Itoa_nat: "Itoa (int n) = digits10 n"
  by (simp add: Itoa_def)

lemma read_bulks_step:
  assumes "read_bulks n s = Some (xs, r)"
  shows "read_bulks (Suc n) (bulk a @ s) = Some (a # xs, r)"
proof -
  have b: "bulk a @ s = ''$'' @ digits10 (length a) @ CRLF @ (a @ CRLF @ s)"
    by (simp add: bulk_def Itoa_nat)
  have l: "read_len (drop 1 (bulk a @ s)) = Some (length a, a @ CRLF @ s)"
    unfolding b using read_len_digits10 [of "length a" "a @ CRLF @ s"] by simp
  have h: "take 1 (bulk a @ s) = ''$''"
    unfolding b by simp
  show ?thesis
    unfolding read_bulks.simps h l using assms by (simp add: CRLF_simps)
qed

lemma read_bulks_bulks: "read_bulks (length xs) (concat (map bulk xs) @ r) = Some (xs, r)"
proof (induction xs)
  case Nil
  then show ?case by simp
next
  case (Cons a xs)
  show ?case using read_bulks_step [OF Cons.IH, of a] by simp
qed

lemma RESP_foldl:
  "foldl (\<lambda>s arg. (s @ ''$'' @ Itoa (int (length arg)) @ CRLF) @ arg @ CRLF) acc cmd
     = acc @ concat (map bulk cmd)"
  by (induction cmd arbitrary: acc) (simp_all add: bulk_def)

lemma RESPSerializer_eq: "RESPSerializer cmd = ''*'' @ Itoa (int (length cmd)) @ CRLF @ concat (map bulk cmd)"
  unfolding RESPSerializer_def RESP_foldl by simp

text \<open>
  Claim C3. For every command, \<open>RESPSerializer\<close> produces exactly \<open>*<argc>\r\n\<close>
  followed, for each argument in order, by \<open>$<length>\r\n<argument>\r\n\<close>, where
  \<open>argc\<close> and \<open>length\<close> are the decimal text of the number of arguments and of the
  number of bytes of the argument (a string is its bytes, so an argument with
  multi-byte characters counts each byte); and reading that output back as a
  length-prefixed array gives the command again.
\<close>

theorem RESPSerializer_roundtrip:
  "RESPSerializer cmd = ''*'' @ Itoa (int (length cmd)) @ CRLF @ concat (map bulk cmd)
   \<and> dec_val (Itoa (int (length cmd))) = length cmd
   \<and> list_all (\<lambda>arg. dec_val (Itoa (int (length arg))) = length arg) cmd
   \<and> read_request (RESPSerializer cmd) = Some cmd"
proof -
  have e: "RESPSerializer cmd = ''*'' @ digits10 (length cmd) @ CRLF @ concat (map bulk cmd)"
    by (simp add: RESPSerializer_eq Itoa_nat)
  have l: "read_len (drop 1 (RESPSerializer cmd)) = Some (length cmd, concat (map bulk cmd))"
    unfolding e using read_len_digits10 [of "length cmd" "concat (map bulk cmd)"] by simp
  have h: "take 1 (RESPSerializer cmd) = ''*''"
    unfolding e by simp
  have b: "read_bulks (length cmd) (concat (map bulk cmd)) = Some (cmd, [])"
    using read_bulks_bulks [of cmd "[]"] by simp
  have r: "read_request (RESPSerializer cmd) = Some cmd"
    unfolding read_request_def h l by (simp add: b)
  show ?thesis
    using r by (simp add: RESPSerializer_eq Itoa_nat dec_val_digits10 list_all_iff)
qed

text \<open>The two bytes of the UTF-8 text of U+00E9 are counted as two.\<close>

lemma RESPSerializer_multibyte:
  "RESPSerializer [''GET'', [CHR 0xC3, CHR 0xA9]]
     = ''*2'' @ CRLF @ ''$3'' @ CRLF @ ''GET'' @ CRLF @ ''$2'' @ CRLF @ [CHR 0xC3, CHR 0xA9] @ CRLF"
  by (simp add: RESPSerializer_def Itoa_def digits10.simps digit_char_def)

subsection \<open>The command builders as functions of their inputs\<close>

lemma digits10_inj: "digits10 m = digits10 n \<Longrightarrow> m = n"
proof -
  assume "digits10 m = digits10 n"
  then have "dec_val (digits10 m) = dec_val (digits10 n)" by (rule arg_cong)
  then show "m = n" by (simp only: dec_val_digits10)
qed

lemma digits10_no_minus: "digits10 n \<noteq> CHR ''-'' # ds"
proof
  assume "digits10 n = CHR ''-'' # ds"
  then have "is_digit (CHR ''-'')"
    using digits10_digits [of n] by simp
  then show False by (simp add: is_digit_def)
qed

lemma Itoa_inj: "Itoa i = Itoa j \<Longrightarrow> i = j"
proof -
  assume eq: "Itoa i = Itoa j"
  consider (nn) "i < 0" "j < 0" | (np) "i < 0" "\<not> j < 0" | (pn) "\<not> i < 0" "j < 0"
    | (pp) "\<not> i < 0" "\<not> j < 0" by blast
  then show "i = j"
  proof cases
    case nn
    then have "digits10 (nat (- i)) = digits10 (nat (- j))"
      using eq by (simp add: Itoa_def)
    then have "nat (- i) = nat (- j)" by (rule digits10_inj)
    then show ?thesis using nn by simp
  next
    case np
    then have "digits10 (nat j) = CHR ''-'' # digits10 (nat (- i))"
      using eq by (simp add: Itoa_def)
    then show ?thesis using digits10_no_minus by blast
  next
    case pn
    then have "digits10 (nat i) = CHR ''-'' # digits10 (nat (- j))"
      using eq by (simp add: Itoa_def)
    then show ?thesis using digits10_no_minus by blast
  next
    case pp
    then have "digits10 (nat i) = digits10 (nat j)"
      using eq by (simp add: Itoa_def)
    then have "nat i = nat j" by (rule digits10_inj)
    then show ?thesis using pp by simp
  qed
qed

lemma ttlToRedisCmd_inj:
  "ttlToRedisCmd now k val = ttlToRedisCmd now' k' val' \<longleftrightarrow> k = k' \<and> now + val = now' + val'"
proof
  assume "ttlToRedisCmd now k val = ttlToRedisCmd now' k' val'"
  then have k: "k = k'" and "Itoa (sint (now + val)) = Itoa (sint (now' + val'))"
    by (simp_all add: ttlToRedisCmd_def)
  then have "sint (now + val) = sint (now' + val')" using Itoa_inj by blast
  then have "now + val = now' + val'" by (rule signed_word_eqI)
  with k show "k = k' \<and> now + val = now' + val'" by simp
next
  assume "k = k' \<and> now + val = now' + val'"
  then show "ttlToRedisCmd now k val = ttlToRedisCmd now' k' val'"
    by (simp add: ttlToRedisCmd_def)
qed

lemma hash_foldl:
  "foldl (\<lambda>cmd (f, v). cmd @ [f, v]) acc val = acc @ concat (map (\<lambda>(f, v). [f, v]) val)"
  by (induction val arbitrary: acc) (auto)

lemma hashToRedisCmd_eq:
  "hashToRedisCmd k val = ''HSET'' # k # concat (map (\<lambda>(f, v). [f, v]) val)"
  by (simp add: hashToRedisCmd_def hash_foldl)

lemma zset_loop_odd_tail:
  "i mod 2 = 0 \<Longrightarrow>
   zset_loop i (concat (map (\<lambda>(m, s). [m, s]) ps) @ [m']) key cmd = cmd @ concat (map (\<lambda>(m, s). [s, m]) ps)"
proof (induction ps arbitrary: i key cmd)
  case Nil
  then show ?case by simp
next
  case (Cons p ps)
  obtain m s where p: "p = (m, s)" by (cases p)
  have odd: "(i + 1) mod 2 \<noteq> 0" and even: "(i + 1 + 1) mod 2 = 0"
    using Cons.prems by presburger+
  show ?case
    using Cons.IH [OF even] odd Cons.prems by (simp add: p)
qed

text \<open>
  Claim C9, as amended. \<open>stringToRedisCmd\<close>, \<open>listToRedisCmd\<close>, \<open>setToRedisCmd\<close> and
  \<open>zsetToRedisCmd\<close> return a command that the key and the value determine
  (\<open>SET k v\<close>, \<open>RPUSH k v1 ...\<close>, \<open>SADD k v1 ...\<close>, \<open>ZADD k s1 m1 ...\<close>, a member
  with no score after it being left out). \<open>hashToRedisCmd\<close> returns \<open>HSET k\<close> followed by
  the field/value pairs in the order in which the map is iterated, which is not fixed
  by the map. \<open>ttlToRedisCmd\<close> reads the clock: it returns \<open>EXPIREAT k t\<close> where \<open>t\<close> is
  the decimal text of clock reading plus TTL, so two calls agree exactly when the keys
  and these sums agree.
\<close>

theorem builders_determined:
  "stringToRedisCmd k v = [''SET'', k, v]
   \<and> listToRedisCmd k vs = ''RPUSH'' # k # vs
   \<and> setToRedisCmd k vs = ''SADD'' # k # vs
   \<and> zsetToRedisCmd k (concat (map (\<lambda>(m, s). [m, s]) ps))
        = ''ZADD'' # k # concat (map (\<lambda>(m, s). [s, m]) ps)
   \<and> zsetToRedisCmd k (concat (map (\<lambda>(m, s). [m, s]) ps) @ [m'])
        = ''ZADD'' # k # concat (map (\<lambda>(m, s). [s, m]) ps)
   \<and> hashToRedisCmd k es = ''HSET'' # k # concat (map (\<lambda>(f, v). [f, v]) es)
   \<and> ttlToRedisCmd now k ttl = [''EXPIREAT'', k, Itoa (sint (now + ttl))]
   \<and> (ttlToRedisCmd now k ttl = ttlToRedisCmd now' k' ttl' \<longleftrightarrow> k = k' \<and> now + ttl = now' + ttl')"
proof (intro conjI)
  show "zsetToRedisCmd k (concat (map (\<lambda>(m, s). [m, s]) ps))
          = ''ZADD'' # k # concat (map (\<lambda>(m, s). [s, m]) ps)"
    unfolding zsetToRedisCmd_def by (subst zset_loop_pairs) simp_all
  show "zsetToRedisCmd k (concat (map (\<lambda>(m, s). [m, s]) ps) @ [m'])
          = ''ZADD'' # k # concat (map (\<lambda>(m, s). [s, m]) ps)"
    unfolding zsetToRedisCmd_def by (subst zset_loop_odd_tail) simp_all
  show "hashToRedisCmd k es = ''HSET'' # k # concat (map (\<lambda>(f, v). [f, v]) es)"
    by (rule hashToRedisCmd_eq)
  show "ttlToRedisCmd now k ttl = ttlToRedisCmd now' k' ttl' \<longleftrightarrow> k = k' \<and> now + ttl = now' + ttl'"
    by (rule ttlToRedisCmd_inj)
qed (simp_all add: stringToRedisCmd_def listToRedisCmd_def setToRedisCmd_def ttlToRedisCmd_def)

text \<open>
  The claim as stated fails: the same key and TTL give two commands at two clock
  readings, and the same map (the same fields with the same values) gives two commands
  in two iteration orders.
\<close>

theorem builders_not_deterministic:
  "ttlToRedisCmd 1700000000 ''k'' 120 \<noteq> ttlToRedisCmd 1700000001 ''k'' 120
   \<and> map_of [(''f1'', ''v1''), (''f2'', ''v2'')] = map_of [(''f2'', ''v2''), (''f1'', ''v1'')]
   \<and> hashToRedisCmd ''h'' [(''f1'', ''v1''), (''f2'', ''v2'')]
       \<noteq> hashToRedisCmd ''h'' [(''f2'', ''v2''), (''f1'', ''v1'')]"
proof (intro conjI)
  show "ttlToRedisCmd 1700000000 ''k'' 120 \<noteq> ttlToRedisCmd 1700000001 ''k'' 120"
    by (simp add: ttlToRedisCmd_def Itoa_def digits10.simps digit_char_def)
  show "map_of [(''f1'', ''v1''), (''f2'', ''v2'')] = map_of [(''f2'', ''v2''), (''f1'', ''v1'')]"
    by (rule ext) simp
  show "hashToRedisCmd ''h'' [(''f1'', ''v1''), (''f2'', ''v2'')]
       \<noteq> hashToRedisCmd ''h'' [(''f2'', ''v2''), (''f1'', ''v1'')]"
    by (simp add: hashToRedisCmd_def)
qed

subsection \<open>dumpKeys on a batch\<close>

text \<open>
  A key of type \<open>none\<close>: the switch assigns nothing, and the logger is then called with
  the serialized \<open>redisCmd\<close> of the previous round (the empty command in the first
  round); the TTL query follows as for any key.
\<close>

lemma dumpKeys_loop_none:
  assumes "type_reply client key = Inr ''none''"
  shows "dumpKeys_loop client serializer (key # keys) redisCmd out =
     (case ttl_reply client key of
        Inl err \<Rightarrow> (Some err, out @ [Print (serializer redisCmd)])
      | Inr ttl \<Rightarrow>
          if 0 < sint ttl then
            dumpKeys_loop client serializer keys (ttlToRedisCmd (clock client key) key ttl)
              (out @ [Print (serializer redisCmd),
                      Printf (serializer (ttlToRedisCmd (clock client key) key ttl))])
          else dumpKeys_loop client serializer keys redisCmd (out @ [Print (serializer redisCmd)]))"
  using assms by (simp add: fetchCmd_def withTTL_def Let_def split: sum.splits)




text \<open>
  Claim C1, on the store \<open>demo_store\<close> and the batch \<open>a, b\<close>: key \<open>b\<close> reports the type
  \<open>none\<close>, and \<open>dumpKeys\<close> logs a command for it all the same, the command of key \<open>a\<close>
  a second time. (The claim says that no command is emitted for such a key.)
\<close>

theorem dumpKeys_none_logs_previous_command:
  "dumpKeys demo_store [''a'', ''b''] RedisCmdSerializer
     = (None, [Print ''SET a v'', Print ''SET a v''])"
  by (simp add: dumpKeys_def demo_store_def fetchCmd_def withTTL_def stringToRedisCmd_def
      RedisCmdSerializer_def)

text \<open>As the first key of a batch, such a key makes \<open>dumpKeys\<close> log the empty command.\<close>

lemma dumpKeys_none_first:
  "dumpKeys demo_store [''b''] RESPSerializer = (None, [Print (''*0'' @ CRLF)])"
  by (simp add: dumpKeys_def demo_store_def fetchCmd_def withTTL_def
      RESPSerializer_def Itoa_def digits10.simps digit_char_def)






subsection \<open>The dispatch loop\<close>

lemma slice_batch:
  assumes "0 \<le> i" and "i < int (length keys)"
  shows "slice keys i (min' (i + batchSize) (int (length keys))) = take 100 (drop (nat i) keys)"
proof -
  have "nat (min' (i + batchSize) (int (length keys)) - i) = min 100 (length keys - nat i)"
    using assms by (auto simp: min'_def batchSize_def)
  then show ?thesis
    by (simp add: slice_def min_def)
qed

lemma dispatch_step:
  assumes "i < int (length keys)" and "nErrorsAt n = 0"
  shows "dispatch nErrorsAt hasProgress keys n i =
     (slice keys i (min' (i + batchSize) (int (length keys))),
      if hasProgress then Some \<lparr>Done = min' (i + batchSize) (int (length keys)), Total = int (length keys)\<rparr> else None)
     # dispatch nErrorsAt hasProgress keys (Suc n) (i + batchSize)"
  using assms by (subst dispatch.simps) (simp add: Let_def)

lemma dispatch_stop:
  assumes "\<not> (i < int (length keys) \<and> nErrorsAt n = 0)"
  shows "dispatch nErrorsAt hasProgress keys n i = []"
  by (subst dispatch.simps) (simp only: assms if_False)

text \<open>Whatever is sent is a prefix of what is left.\<close>

lemma dispatch_prefix:
  "0 \<le> i \<Longrightarrow> \<exists>m. concat (map fst (dispatch nErrorsAt hasProgress keys n i)) = take m (drop (nat i) keys)"
proof (induction nErrorsAt hasProgress keys n i rule: dispatch.induct)
  case (1 nErrorsAt hasProgress keys n i)
  show ?case
  proof (cases "i < int (length keys) \<and> nErrorsAt n = 0")
    case False
    then have "dispatch nErrorsAt hasProgress keys n i = []" by (rule dispatch_stop)
    then have "concat (map fst (dispatch nErrorsAt hasProgress keys n i)) = take 0 (drop (nat i) keys)"
      by simp
    then show ?thesis by blast
  next
    case True
    have nn: "0 \<le> i + batchSize" using "1.prems" by (simp add: batchSize_def)
    from "1.IH" [OF True refl nn] obtain m where
      m: "concat (map fst (dispatch nErrorsAt hasProgress keys (Suc n) (i + batchSize)))
            = take m (drop (nat (i + batchSize)) keys)" by blast
    have d: "drop (nat (i + batchSize)) keys = drop 100 (drop (nat i) keys)"
      using "1.prems" by (simp add: batchSize_def nat_add_distrib add.commute)
    have "concat (map fst (dispatch nErrorsAt hasProgress keys n i))
            = take 100 (drop (nat i) keys) @ take m (drop 100 (drop (nat i) keys))"
      using True "1.prems" by (simp add: dispatch_step slice_batch m d)
    also have "\<dots> = take (100 + m) (drop (nat i) keys)"
      by (simp add: take_add)
    finally show ?thesis by blast
  qed
qed

lemma dispatch_sizes:
  "0 \<le> i \<Longrightarrow> list_all (\<lambda>r. 0 < length (fst r) \<and> length (fst r) \<le> 100) (dispatch nErrorsAt hasProgress keys n i)"
proof (induction nErrorsAt hasProgress keys n i rule: dispatch.induct)
  case (1 nErrorsAt hasProgress keys n i)
  show ?case
  proof (cases "i < int (length keys) \<and> nErrorsAt n = 0")
    case False
    then show ?thesis by (simp add: dispatch_stop)
  next
    case True
    have nn: "0 \<le> i + batchSize" using "1.prems" by (simp add: batchSize_def)
    have "nat i < length keys" using True "1.prems" by linarith
    then show ?thesis
      using True "1.prems" "1.IH" [OF True refl nn] by (simp add: dispatch_step slice_batch)
  qed
qed

lemma dispatch_all:
  "0 \<le> i \<Longrightarrow> \<forall>n. nErrorsAt n = 0 \<Longrightarrow>
   concat (map fst (dispatch nErrorsAt hasProgress keys n i)) = drop (nat i) keys"
proof (induction nErrorsAt hasProgress keys n i rule: dispatch.induct)
  case (1 nErrorsAt hasProgress keys n i)
  show ?case
  proof (cases "i < int (length keys)")
    case False
    then have "length keys \<le> nat i" using "1.prems" by linarith
    then show ?thesis using False by (simp add: dispatch_stop)
  next
    case True
    have c: "i < int (length keys) \<and> nErrorsAt n = 0" using True "1.prems" by simp
    have nn: "0 \<le> i + batchSize" using "1.prems" by (simp add: batchSize_def)
    have d: "drop (nat (i + batchSize)) keys = drop 100 (drop (nat i) keys)"
      using "1.prems" by (simp add: batchSize_def nat_add_distrib add.commute)
    have r: "concat (map fst (dispatch nErrorsAt hasProgress keys (Suc n) (i + batchSize)))
               = drop 100 (drop (nat i) keys)"
      using "1.IH" [OF c refl nn "1.prems"(2)] by (simp only: d)
    have "concat (map fst (dispatch nErrorsAt hasProgress keys n i))
            = take 100 (drop (nat i) keys) @ drop 100 (drop (nat i) keys)"
      using dispatch_step [of i keys nErrorsAt n hasProgress] c
        slice_batch [OF "1.prems"(1) True] r by simp
    then show ?thesis by (simp only: append_take_drop_id)
  qed
qed

lemma dispatch_250:
  assumes "length keys = 250" and "\<forall>n. nErrorsAt n = 0"
  shows "map (\<lambda>r. length (fst r)) (dispatch nErrorsAt hasProgress keys 0 0) = [100, 100, 50]"
proof -
  have z: "\<And>n. nErrorsAt n = 0" using assms(2) by simp
  show ?thesis
    using assms(1)
    by (simp add: dispatch.simps [of nErrorsAt hasProgress keys] z Let_def min'_def batchSize_def slice_def)
qed

lemma notifications_simps:
  "notifications [] = []"
  "notifications ((b, None) # rs) = notifications rs"
  "notifications ((b, Some p) # rs) = p # notifications rs"
  by (simp_all add: notifications_def map_filter_simps)

lemma notifications_none: "notifications (dispatch nErrorsAt False keys n i) = []"
proof (induction nErrorsAt False keys n i rule: dispatch.induct)
  case (1 nErrorsAt keys n i)
  show ?case
  proof (cases "i < int (length keys) \<and> nErrorsAt n = 0")
    case False
    then show ?thesis by (simp add: dispatch_stop notifications_simps)
  next
    case True
    then show ?thesis using "1.hyps" [OF True refl]
      by (simp add: dispatch_step notifications_simps)
  qed
qed

lemma dispatch_done_bounds:
  "list_all (\<lambda>p. i < Done p \<and> Done p \<le> int (length keys) \<and> Total p = int (length keys))
     (notifications (dispatch nErrorsAt hasProgress keys n i))
   \<and> sorted (map Done (notifications (dispatch nErrorsAt hasProgress keys n i)))"
proof (induction nErrorsAt hasProgress keys n i rule: dispatch.induct)
  case (1 nErrorsAt hasProgress keys n i)
  show ?case
  proof (cases "i < int (length keys) \<and> nErrorsAt n = 0")
    case False
    then show ?thesis by (simp add: dispatch_stop notifications_simps)
  next
    case True
    let ?rest = "notifications (dispatch nErrorsAt hasProgress keys (Suc n) (i + batchSize))"
    let ?e = "min' (i + batchSize) (int (length keys))"
    have ih: "list_all (\<lambda>p. i + batchSize < Done p \<and> Done p \<le> int (length keys) \<and> Total p = int (length keys)) ?rest"
      and so: "sorted (map Done ?rest)"
      using "1.IH" [OF True refl] by simp_all
    have e: "i < ?e" "?e \<le> int (length keys)" "?e \<le> i + batchSize"
      using True by (simp_all add: min'_def batchSize_def)
    have all: "list_all (\<lambda>p. i < Done p \<and> Done p \<le> int (length keys) \<and> Total p = int (length keys)) ?rest"
      using ih by (auto simp: list_all_iff batchSize_def)
    have ge: "\<forall>p\<in>set ?rest. ?e \<le> Done p"
      using ih e(3) by (auto simp: list_all_iff)
    show ?thesis
    proof (cases hasProgress)
      case False
      then show ?thesis using True all so by (simp add: dispatch_step notifications_simps)
    next
      case hp: True
      then show ?thesis using True all so e ge
        by (simp add: dispatch_step notifications_simps)
    qed
  qed
qed

lemma dispatch_last_done:
  "0 \<le> i \<Longrightarrow> i < int (length keys) \<Longrightarrow> \<forall>n. nErrorsAt n = 0 \<Longrightarrow>
   notifications (dispatch nErrorsAt True keys n i) \<noteq> []
   \<and> Done (last (notifications (dispatch nErrorsAt True keys n i))) = int (length keys)"
proof (induction nErrorsAt True keys n i rule: dispatch.induct)
  case (1 nErrorsAt keys n i)
  have c: "i < int (length keys) \<and> nErrorsAt n = 0" using "1.prems" by simp
  let ?rest = "notifications (dispatch nErrorsAt True keys (Suc n) (i + batchSize))"
  have step: "notifications (dispatch nErrorsAt True keys n i)
      = \<lparr>Done = min' (i + batchSize) (int (length keys)), Total = int (length keys)\<rparr> # ?rest"
    using c by (simp add: dispatch_step notifications_simps)
  show ?case
  proof (cases "i + batchSize < int (length keys)")
    case True
    have nn: "0 \<le> i + batchSize" using "1.prems" by (simp add: batchSize_def)
    have "?rest \<noteq> [] \<and> Done (last ?rest) = int (length keys)"
      using "1.hyps" [OF c refl nn True "1.prems"(3)] .
    then show ?thesis by (simp add: step)
  next
    case False
    then have "?rest = []" by (simp add: dispatch_stop notifications_simps)
    then show ?thesis using False by (simp add: step min'_def)
  qed
qed

text \<open>
  Claim C6, as amended. Every batch that the dispatcher sends holds between 1 and 100
  keys, and the batches sent, one after the other, are a prefix of the key list
  (contiguous, in the original order, no key twice). When the error count reads 0 at
  every test of the loop, the batches cover the whole list; for 250 keys they are then
  3 batches of 100, 100 and 50 keys.
\<close>

theorem dispatch_batches:
  "list_all (\<lambda>r. 0 < length (fst r) \<and> length (fst r) \<le> 100)
     (dispatch nErrorsAt hasProgress keys 0 0)
   \<and> (\<exists>m. concat (map fst (dispatch nErrorsAt hasProgress keys 0 0)) = take m keys)
   \<and> ((\<forall>n. nErrorsAt n = 0) \<longrightarrow>
        concat (map fst (dispatch nErrorsAt hasProgress keys 0 0)) = keys)
   \<and> ((\<forall>n. nErrorsAt n = 0) \<and> length keys = 250 \<longrightarrow>
        map (\<lambda>r. length (fst r)) (dispatch nErrorsAt hasProgress keys 0 0) = [100, 100, 50])"
  using dispatch_sizes [of 0 nErrorsAt hasProgress keys 0]
    dispatch_prefix [of 0 nErrorsAt hasProgress keys 0]
    dispatch_all [of 0 nErrorsAt hasProgress keys 0]
    dispatch_250 [of keys nErrorsAt hasProgress]
  by simp

theorem dispatch_batches_witness:
  "(\<forall>n. (\<lambda>n. 0 :: int) n = 0) \<and> length keys250 = 250
   \<and> concat (map fst (dispatch (\<lambda>n. 0) True keys250 0 0)) = keys250
   \<and> map (\<lambda>r. length (fst r)) (dispatch (\<lambda>n. 0) True keys250 0 0) = [100, 100, 50]"
proof -
  have l: "length keys250 = 250" by (simp add: keys250_def)
  show ?thesis
    using l dispatch_batches [of "\<lambda>n. 0" True keys250] by simp
qed

text \<open>
  The claim as stated fails: with 250 keys and an error counted after the first batch
  was sent, one batch of 100 keys is sent and 150 keys are in no batch.
\<close>

theorem dispatch_stops_on_error:
  "map (\<lambda>r. length (fst r)) (dispatch error_after_first True keys250 0 0) = [100]
   \<and> concat (map fst (dispatch error_after_first True keys250 0 0)) \<noteq> keys250"
proof -
  have l: "length keys250 = 250" by (simp add: keys250_def)
  have m: "map (\<lambda>r. length (fst r)) (dispatch error_after_first True keys250 0 0) = [100]"
    using l by (simp add: dispatch.simps [of _ _ keys250] error_after_first_def Let_def
        min'_def batchSize_def slice_def)
  have "length (concat (map fst (dispatch error_after_first True keys250 0 0))) = 100"
    using m by (simp add: length_concat comp_def)
  then have "concat (map fst (dispatch error_after_first True keys250 0 0)) \<noteq> keys250"
    using l by auto
  with m show ?thesis by simp
qed

text \<open>
  Claim C7, as amended. Across the notifications of one run of the dispatch loop,
  \<open>Done\<close> is non-decreasing and \<open>Total\<close> is the number of keys. When the error count
  reads 0 at every test of the loop, there is a progress channel and there is at least
  one key, there is a last notification and its \<open>Done\<close> equals the number of keys.
\<close>

theorem progress_notifications:
  "sorted (map Done (notifications (dispatch nErrorsAt hasProgress keys 0 0)))
   \<and> list_all (\<lambda>p. Total p = int (length keys))
        (notifications (dispatch nErrorsAt hasProgress keys 0 0))
   \<and> ((\<forall>n. nErrorsAt n = 0) \<and> keys \<noteq> [] \<longrightarrow>
        notifications (dispatch nErrorsAt True keys 0 0) \<noteq> []
        \<and> Done (last (notifications (dispatch nErrorsAt True keys 0 0))) = int (length keys))"
proof (intro conjI impI)
  show "sorted (map Done (notifications (dispatch nErrorsAt hasProgress keys 0 0)))"
    using dispatch_done_bounds [of 0 keys nErrorsAt hasProgress 0] by simp
  show "list_all (\<lambda>p. Total p = int (length keys))
          (notifications (dispatch nErrorsAt hasProgress keys 0 0))"
    using dispatch_done_bounds [of 0 keys nErrorsAt hasProgress 0]
    by (simp add: list_all_iff)
next
  assume a: "(\<forall>n. nErrorsAt n = 0) \<and> keys \<noteq> []"
  then show "notifications (dispatch nErrorsAt True keys 0 0) \<noteq> []"
    using dispatch_last_done [of 0 keys nErrorsAt 0] by simp
  from a show "Done (last (notifications (dispatch nErrorsAt True keys 0 0))) = int (length keys)"
    using dispatch_last_done [of 0 keys nErrorsAt 0] by simp
qed

theorem progress_notifications_witness:
  "(\<forall>n. (\<lambda>n. 0 :: int) n = 0) \<and> keys250 \<noteq> []
   \<and> sorted (map Done (notifications (dispatch (\<lambda>n. 0) True keys250 0 0)))
   \<and> Done (last (notifications (dispatch (\<lambda>n. 0) True keys250 0 0))) = 250"
proof -
  have l: "length keys250 = 250" by (simp add: keys250_def)
  then have ne: "keys250 \<noteq> []" by auto
  show ?thesis
    using l ne progress_notifications [of "\<lambda>n. 0" True keys250] by simp
qed

text \<open>
  The claim as stated fails: with 250 keys and an error counted after the first batch
  was sent, the only and last notification has \<open>Done = 100\<close> and \<open>Total = 250\<close>.
\<close>

theorem progress_stops_short:
  "notifications (dispatch error_after_first True keys250 0 0) = [\<lparr>Done = 100, Total = 250\<rparr>]
   \<and> Done (last (notifications (dispatch error_after_first True keys250 0 0)))
       \<noteq> Total (last (notifications (dispatch error_after_first True keys250 0 0)))"
proof -
  have l: "length keys250 = 250" by (simp add: keys250_def)
  have n: "notifications (dispatch error_after_first True keys250 0 0)
             = [\<lparr>Done = 100, Total = 250\<rparr>]"
    using l by (simp add: dispatch.simps [of _ _ keys250] error_after_first_def Let_def
        min'_def batchSize_def notifications_simps)
  show ?thesis by (simp add: n)
qed

subsection \<open>What DumpDB returns\<close>



subsection \<open>parseKeyspaceInfo\<close>

text \<open>While no line is too long for the scanner, its tokens are the lines of the text.\<close>

lemma scan_lines_short:
  "list_all (\<lambda>l. length l < MaxScanTokenSize) (raw_lines data) \<Longrightarrow>
   scan_lines data = map dropCR (raw_lines data)"
proof (induction data rule: raw_lines.induct)
  case (1 data)
  show ?case
  proof (cases "data = []")
    case True
    then show ?thesis by (simp add: scan_lines.simps raw_lines.simps)
  next
    case False
    let ?tok = "takeWhile (\<lambda>c. c \<noteq> CHR 0x0A) data"
    let ?rest = "drop 1 (dropWhile (\<lambda>c. c \<noteq> CHR 0x0A) data)"
    have r: "raw_lines data = ?tok # raw_lines ?rest"
      using False by (subst raw_lines.simps) simp
    have short: "length ?tok < MaxScanTokenSize"
      and rest: "list_all (\<lambda>l. length l < MaxScanTokenSize) (raw_lines ?rest)"
      using "1.prems" unfolding r by simp_all
    have "scan_lines data = dropCR ?tok # scan_lines ?rest"
      using False short by (subst scan_lines.simps) (simp add: Let_def)
    then show ?thesis
      using "1.IH" [OF False rest] by (simp add: r)
  qed
qed

lemma slice_db_token:
  assumes "HasPrefix line ''db''" and "CHR '':'' \<in> set line"
  shows "slice_str line 2 (IndexColon line) = Returned (db_token line)"
proof -
  obtain rest where l: "line = CHR ''d'' # CHR ''b'' # rest"
    using assms(1) by (cases line; cases "tl line") (auto simp: HasPrefix_def)
  let ?P = "\<lambda>c. c \<noteq> CHR '':''"
  have i: "IndexColon (CHR ''d'' # CHR ''b'' # rest) = 2 + int (length (takeWhile ?P rest))"
    using assms(2) unfolding l by (simp add: IndexColon_def)
  have le: "length (takeWhile ?P rest) \<le> length rest"
    by (rule length_takeWhile_le)
  have t: "take (length (takeWhile ?P rest)) rest = takeWhile ?P rest"
    by (simp add: takeWhile_eq_take [symmetric])
  show ?thesis
    unfolding l slice_str_def i db_token_def using le t by simp
qed

lemma slice_no_colon:
  assumes "CHR '':'' \<notin> set line"
  shows "slice_str line 2 (IndexColon line) = Panic"
  using assms by (simp add: slice_str_def IndexColon_def)

lemma digits_from_ge: "n \<le> digits_from n cs"
proof (induction cs arbitrary: n)
  case Nil
  then show ?case by simp
next
  case (Cons c cs)
  have "n \<le> n * 10 + digit_val c" by simp
  also have "\<dots> \<le> digits_from (n * 10 + digit_val c) cs" by (rule Cons.IH)
  finally show ?case by simp
qed

lemma dec_val_digits_from: "foldl (\<lambda>n c. 10 * n + digit_val c) n cs = digits_from n cs"
  by (induction cs arbitrary: n) (simp_all add: mult.commute)

lemma parse_digits_ok:
  "list_all is_digit cs \<Longrightarrow> digits_from n cs \<le> 255 \<Longrightarrow> parse_digits s0 n cs = Inr (digits_from n cs)"
proof (induction cs arbitrary: n)
  case Nil
  then show ?case by simp
next
  case (Cons c cs)
  have "n * 10 + digit_val c \<le> digits_from (n * 10 + digit_val c) cs" by (rule digits_from_ge)
  then have "n * 10 + digit_val c \<le> 255" using Cons.prems(2) by simp
  then show ?case using Cons by simp
qed

lemma parse_digits_bad:
  "n \<le> 255 \<Longrightarrow> \<not> (list_all is_digit cs \<and> digits_from n cs \<le> 255) \<Longrightarrow>
   \<exists>cause. parse_digits s0 n cs = Inl (NumError ''ParseUint'' s0 cause)"
proof (induction cs arbitrary: n)
  case Nil
  then show ?case by simp
next
  case (Cons c cs)
  show ?case
  proof (cases "is_digit c \<and> n * 10 + digit_val c \<le> 255")
    case True
    then have "\<not> (list_all is_digit cs \<and> digits_from (n * 10 + digit_val c) cs \<le> 255)"
      using Cons.prems by simp
    from Cons.IH [OF conjunct2 [OF True] this] show ?thesis using True by simp
  next
    case False
    then show ?thesis by auto
  qed
qed

lemma ParseUint8_ok: "uint8_text tok \<Longrightarrow> ParseUint8 tok = Inr (dec_val tok)"
  using parse_digits_ok [of tok 0 tok]
  by (simp add: uint8_text_def ParseUint8_def dec_val_def dec_val_digits_from)

lemma ParseUint8_bad:
  "\<not> uint8_text tok \<Longrightarrow> \<exists>cause. ParseUint8 tok = Inl (NumError ''ParseUint'' tok cause)"
  using parse_digits_bad [of 0 tok tok]
  by (auto simp: uint8_text_def ParseUint8_def dec_val_def dec_val_digits_from)

lemma parse_loop_ok_prefix:
  "list_all db_line_ok pre \<Longrightarrow>
   parse_loop (pre @ rest) dbs = parse_loop rest (dbs @ db_indices pre)"
proof (induction pre arbitrary: dbs)
  case Nil
  then show ?case by (simp add: db_indices_def)
next
  case (Cons t pre)
  have ok: "db_line_ok t" and oks: "list_all db_line_ok pre" using Cons.prems by simp_all
  show ?case
  proof (cases "HasPrefix (TrimSpace t) ''db''")
    case False
    then show ?thesis using Cons.IH [OF oks] by (simp add: db_indices_def Let_def)
  next
    case True
    then have c: "CHR '':'' \<in> set (TrimSpace t)" and u: "uint8_text (db_token (TrimSpace t))"
      and r: "dec_val (db_token (TrimSpace t)) \<le> 16"
      using ok by (simp_all add: db_line_ok_def Let_def)
    show ?thesis
      using True r Cons.IH [OF oks]
      by (simp add: Let_def slice_db_token [OF True c] ParseUint8_ok [OF u] db_indices_def)
  qed
qed

lemma parse_loop_bad_token:
  assumes "HasPrefix (TrimSpace t) ''db''" and "CHR '':'' \<in> set (TrimSpace t)"
    and "\<not> uint8_text (db_token (TrimSpace t))"
  shows "\<exists>cause. parse_loop (t # rest) dbs
           = Returned (Inl (NumError ''ParseUint'' (db_token (TrimSpace t)) cause))"
proof -
  obtain cause where "ParseUint8 (db_token (TrimSpace t))
      = Inl (NumError ''ParseUint'' (db_token (TrimSpace t)) cause)"
    using ParseUint8_bad [OF assms(3)] by blast
  then show ?thesis
    using assms(1) by (simp add: Let_def slice_db_token [OF assms(1) assms(2)])
qed

lemma parse_loop_out_of_range:
  assumes "HasPrefix (TrimSpace t) ''db''" and "CHR '':'' \<in> set (TrimSpace t)"
    and "uint8_text (db_token (TrimSpace t))" and "16 < dec_val (db_token (TrimSpace t))"
  shows "parse_loop (t # rest) dbs = Returned (Inl (Errorf ''Error parsing INFO keyspace''))"
  using assms(1) assms(4)
  by (simp add: Let_def slice_db_token [OF assms(1) assms(2)] ParseUint8_ok [OF assms(3)])

lemma parse_loop_no_colon:
  assumes "HasPrefix (TrimSpace t) ''db''" and "CHR '':'' \<notin> set (TrimSpace t)"
  shows "parse_loop (t # rest) dbs = Panic"
  using assms(1) by (simp add: Let_def slice_no_colon [OF assms(2)])

text \<open>Equations that evaluate the parser on a given text.\<close>

lemma scan_lines_Nil: "scan_lines [] = []"
  by (subst scan_lines.simps) simp

lemma scan_lines_Cons:
  "scan_lines (c # cs) =
     (if MaxScanTokenSize \<le> length (takeWhile (\<lambda>c. c \<noteq> CHR 0x0A) (c # cs)) then []
      else dropCR (takeWhile (\<lambda>c. c \<noteq> CHR 0x0A) (c # cs))
           # scan_lines (drop 1 (dropWhile (\<lambda>c. c \<noteq> CHR 0x0A) (c # cs))))"
  by (subst scan_lines.simps) (simp add: Let_def)

lemma raw_lines_Nil: "raw_lines [] = []"
  by (subst raw_lines.simps) simp

lemma raw_lines_Cons:
  "raw_lines (c # cs) =
     takeWhile (\<lambda>c. c \<noteq> CHR 0x0A) (c # cs)
     # raw_lines (drop 1 (dropWhile (\<lambda>c. c \<noteq> CHR 0x0A) (c # cs)))"
  by (subst raw_lines.simps) simp

lemmas eval_simps =
  parseKeyspaceInfo_def scan_lines_Nil scan_lines_Cons raw_lines_Nil raw_lines_Cons
  MaxScanTokenSize_def dropCR_def TrimSpace_def space_width_left_def space_width_right_def
  space_runes_def HasPrefix_def HasSuffix_def IndexColon_def slice_str_def ParseUint8_def
  is_digit_def digit_val_def Let_def

lemmas spec_simps = lines_of_def db_line_ok_def db_token_def uint8_text_def db_indices_def dec_val_def

lemma raw_lines_line:
  assumes "CHR 0x0A \<notin> set tok"
  shows "raw_lines (tok @ CHR 0x0A # rest) = tok # raw_lines rest"
proof -
  have p: "\<And>x. x \<in> set tok \<Longrightarrow> x \<noteq> CHR 0x0A" using assms by auto
  have t: "takeWhile (\<lambda>c. c \<noteq> CHR 0x0A) (tok @ CHR 0x0A # rest) = tok"
    using p by (simp add: takeWhile_append2)
  have d: "dropWhile (\<lambda>c. c \<noteq> CHR 0x0A) (tok @ CHR 0x0A # rest) = CHR 0x0A # rest"
    using p by (simp add: dropWhile_append2)
  show ?thesis
    by (subst raw_lines.simps) (simp add: t d)
qed

lemma scan_lines_too_long:
  assumes "CHR 0x0A \<notin> set tok" and "MaxScanTokenSize \<le> length tok"
  shows "scan_lines (tok @ CHR 0x0A # rest) = []"
proof -
  have p: "\<And>x. x \<in> set tok \<Longrightarrow> x \<noteq> CHR 0x0A" using assms(1) by auto
  have t: "takeWhile (\<lambda>c. c \<noteq> CHR 0x0A) (tok @ CHR 0x0A # rest) = tok"
    using p by (simp add: takeWhile_append2)
  show ?thesis
    using assms(2) by (subst scan_lines.simps) (simp add: t Let_def)
qed

text \<open>
  Claim C5, as amended. For every text whose pieces between \<open>\n\<close> bytes are each
  shorter than 65536 bytes (the scanner's token limit): if every line that begins with
  \<open>db\<close> (surrounding white space aside) is \<open>db<N>:...\<close> with \<open>N\<close> the decimal text of a
  number up to 16, the parser returns exactly these \<open>N\<close>, in order; if the first line
  that is not so is \<open>db<token>:...\<close> with a token that is not the decimal text of an
  unsigned 8-bit integer, the parser returns the \<open>NumError\<close> of \<open>ParseUint\<close> for that
  token (the ParseError); if it is \<open>db<N>:...\<close> with \<open>N\<close> from 17 to 255, the parser
  returns its own error \<open>Error parsing INFO keyspace\<close> (the RangeError). The text
  \<open>db0:keys=3,expires=0,avg_ttl=0\ndb5:keys=1,expires=0,avg_ttl=0\n\<close> yields the indices
  0 and 5. (A line that begins with \<open>db\<close> and has no \<open>:\<close> is not covered.)
\<close>

theorem parseKeyspaceInfo_indices:
  assumes short: "list_all (\<lambda>l. length l < MaxScanTokenSize) (raw_lines text)"
  shows
    "(list_all db_line_ok (lines_of text) \<longrightarrow>
        parseKeyspaceInfo text = Returned (Inr (db_indices (lines_of text))))
     \<and> (lines_of text = pre @ l # post \<and> list_all db_line_ok pre
          \<and> HasPrefix (TrimSpace l) ''db'' \<and> CHR '':'' \<in> set (TrimSpace l)
          \<and> \<not> uint8_text (db_token (TrimSpace l)) \<longrightarrow>
        (\<exists>cause. parseKeyspaceInfo text
           = Returned (Inl (NumError ''ParseUint'' (db_token (TrimSpace l)) cause))))
     \<and> (lines_of text = pre @ l # post \<and> list_all db_line_ok pre
          \<and> HasPrefix (TrimSpace l) ''db'' \<and> CHR '':'' \<in> set (TrimSpace l)
          \<and> uint8_text (db_token (TrimSpace l)) \<and> 16 < dec_val (db_token (TrimSpace l)) \<longrightarrow>
        parseKeyspaceInfo text = Returned (Inl (Errorf ''Error parsing INFO keyspace'')))
     \<and> parseKeyspaceInfo
          ''db0:keys=3,expires=0,avg_ttl=0\<newline>db5:keys=1,expires=0,avg_ttl=0\<newline>''
        = Returned (Inr [0, 5])"
proof (intro conjI impI)
  have s: "scan_lines text = lines_of text"
    using scan_lines_short [OF short] by (simp add: lines_of_def)
  {
    assume "list_all db_line_ok (lines_of text)"
    then show "parseKeyspaceInfo text = Returned (Inr (db_indices (lines_of text)))"
      using parse_loop_ok_prefix [of "lines_of text" "[]" "[]"]
      by (simp add: parseKeyspaceInfo_def s)
  next
    assume a: "lines_of text = pre @ l # post \<and> list_all db_line_ok pre
          \<and> HasPrefix (TrimSpace l) ''db'' \<and> CHR '':'' \<in> set (TrimSpace l)
          \<and> \<not> uint8_text (db_token (TrimSpace l))"
    then have p: "parseKeyspaceInfo text = parse_loop (l # post) ([] @ db_indices pre)"
      using parse_loop_ok_prefix [of pre "l # post" "[]"]
      by (simp add: parseKeyspaceInfo_def s)
    show "\<exists>cause. parseKeyspaceInfo text
           = Returned (Inl (NumError ''ParseUint'' (db_token (TrimSpace l)) cause))"
      unfolding p using a parse_loop_bad_token by blast
  next
    assume a: "lines_of text = pre @ l # post \<and> list_all db_line_ok pre
          \<and> HasPrefix (TrimSpace l) ''db'' \<and> CHR '':'' \<in> set (TrimSpace l)
          \<and> uint8_text (db_token (TrimSpace l)) \<and> 16 < dec_val (db_token (TrimSpace l))"
    then have p: "parseKeyspaceInfo text = parse_loop (l # post) ([] @ db_indices pre)"
      using parse_loop_ok_prefix [of pre "l # post" "[]"]
      by (simp add: parseKeyspaceInfo_def s)
    show "parseKeyspaceInfo text = Returned (Inl (Errorf ''Error parsing INFO keyspace''))"
      unfolding p using a parse_loop_out_of_range by blast
  }
  show "parseKeyspaceInfo
          ''db0:keys=3,expires=0,avg_ttl=0\<newline>db5:keys=1,expires=0,avg_ttl=0\<newline>''
        = Returned (Inr [0, 5])"
    by (simp add: eval_simps)
qed

text \<open>
  On a reply with \<open>\r\n\<close> line ends and the indices 0 and 16, on a text whose second
  line is \<open>dbx:keys=2\<close>, and on a text whose second line is \<open>db17:keys=2\<close>.
\<close>

theorem parseKeyspaceInfo_indices_witness:
  "list_all (\<lambda>l. length l < MaxScanTokenSize) (raw_lines info_reply)
   \<and> list_all db_line_ok (lines_of info_reply)
   \<and> db_indices (lines_of info_reply) = [0, 16]
   \<and> parseKeyspaceInfo info_reply = Returned (Inr [0, 16])
   \<and> lines_of ''db1:keys=1\<newline>dbx:keys=2\<newline>db3:keys=3'' = [''db1:keys=1''] @ ''dbx:keys=2'' # [''db3:keys=3'']
   \<and> \<not> uint8_text (db_token (TrimSpace ''dbx:keys=2''))
   \<and> (\<exists>cause. parseKeyspaceInfo ''db1:keys=1\<newline>dbx:keys=2\<newline>db3:keys=3''
         = Returned (Inl (NumError ''ParseUint'' ''x'' cause)))
   \<and> lines_of ''db1:keys=1\<newline>db17:keys=2\<newline>db3:keys=3'' = [''db1:keys=1''] @ ''db17:keys=2'' # [''db3:keys=3'']
   \<and> uint8_text (db_token (TrimSpace ''db17:keys=2'')) \<and> 16 < dec_val (db_token (TrimSpace ''db17:keys=2''))
   \<and> parseKeyspaceInfo ''db1:keys=1\<newline>db17:keys=2\<newline>db3:keys=3''
         = Returned (Inl (Errorf ''Error parsing INFO keyspace''))"
proof -
  have s1: "list_all (\<lambda>l. length l < MaxScanTokenSize) (raw_lines info_reply)"
    by (simp add: info_reply_def CRLF_def eval_simps)
  have l1: "lines_of info_reply
      = [''# Keyspace'', ''db0:keys=3,expires=0,avg_ttl=0'', ''db16:keys=1,expires=0,avg_ttl=0'']"
    by (simp add: info_reply_def CRLF_def lines_of_def eval_simps)
  have o1: "list_all db_line_ok (lines_of info_reply)"
    unfolding l1 by (simp add: spec_simps eval_simps)
  have i1: "db_indices (lines_of info_reply) = [0, 16]"
    unfolding l1 by (simp add: spec_simps eval_simps)
  have r1: "parseKeyspaceInfo info_reply = Returned (Inr [0, 16])"
    using parseKeyspaceInfo_indices [OF s1] o1 i1 by simp
  let ?t2 = "''db1:keys=1\<newline>dbx:keys=2\<newline>db3:keys=3''"
  have s2: "list_all (\<lambda>l. length l < MaxScanTokenSize) (raw_lines ?t2)"
    by (simp add: eval_simps)
  have l2: "lines_of ?t2 = [''db1:keys=1''] @ ''dbx:keys=2'' # [''db3:keys=3'']"
    by (simp add: lines_of_def eval_simps)
  have p2: "list_all db_line_ok [''db1:keys=1'']"
    by (simp add: spec_simps eval_simps)
  have h2: "HasPrefix (TrimSpace ''dbx:keys=2'') ''db''" "CHR '':'' \<in> set (TrimSpace ''dbx:keys=2'')"
    "\<not> uint8_text (db_token (TrimSpace ''dbx:keys=2''))" "db_token (TrimSpace ''dbx:keys=2'') = ''x''"
    by (simp_all add: spec_simps eval_simps)
  have r2: "\<exists>cause. parseKeyspaceInfo ?t2 = Returned (Inl (NumError ''ParseUint'' ''x'' cause))"
    using parseKeyspaceInfo_indices [OF s2, of "[''db1:keys=1'']" "''dbx:keys=2''" "[''db3:keys=3'']"]
      l2 p2 h2 by simp
  let ?t3 = "''db1:keys=1\<newline>db17:keys=2\<newline>db3:keys=3''"
  have s3: "list_all (\<lambda>l. length l < MaxScanTokenSize) (raw_lines ?t3)"
    by (simp add: eval_simps)
  have l3: "lines_of ?t3 = [''db1:keys=1''] @ ''db17:keys=2'' # [''db3:keys=3'']"
    by (simp add: lines_of_def eval_simps)
  have h3: "HasPrefix (TrimSpace ''db17:keys=2'') ''db''" "CHR '':'' \<in> set (TrimSpace ''db17:keys=2'')"
    "uint8_text (db_token (TrimSpace ''db17:keys=2''))" "16 < dec_val (db_token (TrimSpace ''db17:keys=2''))"
    by (simp_all add: spec_simps eval_simps)
  have r3: "parseKeyspaceInfo ?t3 = Returned (Inl (Errorf ''Error parsing INFO keyspace''))"
    using parseKeyspaceInfo_indices [OF s3, of "[''db1:keys=1'']" "''db17:keys=2''" "[''db3:keys=3'']"]
      l3 p2 h3 by simp
  show ?thesis
    using s1 o1 i1 r1 l2 h2(3) r2 l3 h3(3) h3(4) r3 by simp
qed

text \<open>
  The claim as stated fails. A first line of 65536 bytes ends the scan, and the line
  \<open>db1:keys=1\<close> after it is not read: the parser returns no index and no error. And a
  line that begins with a blank, not with \<open>db\<close>, yields an index: the parser trims
  each line first.
\<close>

theorem parseKeyspaceInfo_long_line:
  "raw_lines (replicate 65536 (CHR ''a'') @ ''\<newline>db1:keys=1'')
     = [replicate 65536 (CHR ''a''), ''db1:keys=1'']
   \<and> parseKeyspaceInfo ''db1:keys=1'' = Returned (Inr [1])
   \<and> parseKeyspaceInfo (replicate 65536 (CHR ''a'') @ ''\<newline>db1:keys=1'') = Returned (Inr [])
   \<and> \<not> HasPrefix '' db3:keys=1'' ''db''
   \<and> parseKeyspaceInfo '' db3:keys=1'' = Returned (Inr [3])"
proof (intro conjI)
  have n: "CHR 0x0A \<notin> set (replicate 65536 (CHR ''a''))" by simp
  show "raw_lines (replicate 65536 (CHR ''a'') @ ''\<newline>db1:keys=1'')
     = [replicate 65536 (CHR ''a''), ''db1:keys=1'']"
    using raw_lines_line [OF n, of "''db1:keys=1''"] by (simp add: eval_simps)
  show "parseKeyspaceInfo ''db1:keys=1'' = Returned (Inr [1])"
    by (simp add: eval_simps)
  have "scan_lines (replicate 65536 (CHR ''a'') @ ''\<newline>db1:keys=1'') = []"
    using scan_lines_too_long [OF n, of "''db1:keys=1''"] by (simp add: MaxScanTokenSize_def)
  then show "parseKeyspaceInfo (replicate 65536 (CHR ''a'') @ ''\<newline>db1:keys=1'') = Returned (Inr [])"
    by (simp add: parseKeyspaceInfo_def)
  show "\<not> HasPrefix '' db3:keys=1'' ''db''"
    by (simp add: HasPrefix_def)
  show "parseKeyspaceInfo '' db3:keys=1'' = Returned (Inr [3])"
    by (simp add: eval_simps)
qed

text \<open>
  Claim C10, on the texts \<open>db0\<close> and \<open># Keyspace\ndb0:keys=3,expires=0,avg_ttl=0\ndb1\<close>:
  a line that begins with \<open>db\<close> and has no \<open>:\<close> makes \<open>strings.IndexAny\<close> return -1, and
  the slice expression \<open>line[2:-1]\<close> panics. (The claim says that the parser returns a
  list or an error for every input.)
\<close>

theorem parseKeyspaceInfo_panics:
  "parseKeyspaceInfo ''db0'' = Panic
   \<and> parseKeyspaceInfo ''# Keyspace\<newline>db0:keys=3,expires=0,avg_ttl=0\<newline>db1'' = Panic"
  by (simp add: eval_simps)

text \<open>The same for every text whose first line that is not as described begins with
  \<open>db\<close> and has no \<open>:\<close>.\<close>

lemma parseKeyspaceInfo_no_colon:
  assumes "list_all (\<lambda>l. length l < MaxScanTokenSize) (raw_lines text)"
    and "lines_of text = pre @ l # post" and "list_all db_line_ok pre"
    and "HasPrefix (TrimSpace l) ''db''" and "CHR '':'' \<notin> set (TrimSpace l)"
  shows "parseKeyspaceInfo text = Panic"
proof -
  have s: "scan_lines text = pre @ l # post"
    using scan_lines_short [OF assms(1)] assms(2) by (simp add: lines_of_def)
  show ?thesis
    unfolding parseKeyspaceInfo_def s parse_loop_ok_prefix [OF assms(3)]
    by (rule parse_loop_no_colon [OF assms(4) assms(5)])
qed

text \<open>
  An index token above 255 is refused by \<open>ParseUint\<close> (its range error), before the
  comparison with 16 is reached; the index 16 itself is accepted.
\<close>

lemma parseKeyspaceInfo_above_255:
  "parseKeyspaceInfo ''db300:keys=1'' = Returned (Inl (NumError ''ParseUint'' ''300'' ErrRange))
   \<and> parseKeyspaceInfo ''db16:keys=1'' = Returned (Inr [16])"
  by (simp add: eval_simps)

end
